theory Spec2Isabelle
  imports Main "HOL-Library.Word"
begin

unbundle bit_operations_syntax

section \<open>Common data\<close>

text \<open>
  Bytes of an ArrayBuffer or Uint8Array are 8-bit words, a buffer is a list of them.
  A JavaScript string is a sequence of UTF-16 code units, so it is a list of 16-bit
  words; \<open>js\<close> turns a literal into such a string.
\<close>

type_synonym byte = "8 word"
type_synonym bytes = "byte list"
type_synonym jsstring = "16 word list"

definition js :: "string \<Rightarrow> jsstring" where
  "js s = map (\<lambda>c. of_nat (of_char c)) s"

section \<open>Proxy rotation (utils/proxyResolver.js)\<close>

subsection \<open>connectWithRotation\<close>

text \<open>
  One pass of the body of the \<open>for\<close> loop can end in four ways: \<open>connect\<close> throws,
  \<open>socket.opened\<close> rejects or loses the race against the timeout, the write of the
  initial data rejects, or everything succeeds. The first three are caught by the
  \<open>catch\<close> block, which continues with the next candidate. The environment gives
  the outcome of the attempt on each index of the candidate list.
\<close>

datatype attempt_outcome = ConnectThrows | OpenFails | WriteFails | Connected

datatype rotation_event =
    Try nat
  | WriteInitial nat bytes
  | SetCursor nat

record rotation_result =
  socket :: "jsstring \<times> nat"
  index :: nat

text \<open>
  The state is the module variable \<open>cachedProxyIndex\<close>. The function returns the
  result (\<open>None\<close> for \<open>null\<close>), the new value of \<open>cachedProxyIndex\<close> and the
  events in the order they happened.
\<close>

function rotation_loop ::
  "(jsstring \<times> nat) list \<Rightarrow> bytes \<Rightarrow> (nat \<Rightarrow> attempt_outcome) \<Rightarrow> nat \<Rightarrow> nat \<Rightarrow> nat
    \<Rightarrow> rotation_result option \<times> nat \<times> rotation_event list" where
  "rotation_loop proxyAddresses initialData env startIndex cachedProxyIndex i =
     (if i < length proxyAddresses then
        (let index = (startIndex + i) mod length proxyAddresses in
         case env index of
           Connected \<Rightarrow>
             (Some \<lparr>socket = proxyAddresses ! index, index = index\<rparr>, index,
              [Try index, WriteInitial index initialData, SetCursor index])
         | WriteFails \<Rightarrow>
             (case rotation_loop proxyAddresses initialData env startIndex cachedProxyIndex (Suc i) of
                (r, c, evs) \<Rightarrow> (r, c, Try index # WriteInitial index initialData # evs))
         | _ \<Rightarrow>
             (case rotation_loop proxyAddresses initialData env startIndex cachedProxyIndex (Suc i) of
                (r, c, evs) \<Rightarrow> (r, c, Try index # evs)))
      else (None, cachedProxyIndex, []))"
  by pat_completeness auto
termination
  by (relation "measure (\<lambda>(ps, d, env, s, c, i). length ps - i)") auto

declare rotation_loop.simps [simp del]

definition connectWithRotation ::
  "(jsstring \<times> nat) list \<Rightarrow> bytes \<Rightarrow> (nat \<Rightarrow> attempt_outcome) \<Rightarrow> nat
    \<Rightarrow> rotation_result option \<times> nat \<times> rotation_event list" where
  "connectWithRotation proxyAddresses initialData env cachedProxyIndex =
     rotation_loop proxyAddresses initialData env cachedProxyIndex cachedProxyIndex 0"

fun tried :: "rotation_event list \<Rightarrow> nat list" where
  "tried [] = []"
| "tried (Try k # evs) = k # tried evs"
| "tried (_ # evs) = tried evs"

definition is_SetCursor :: "rotation_event \<Rightarrow> bool" where
  "is_SetCursor e = (case e of SetCursor _ \<Rightarrow> True | _ \<Rightarrow> False)"

text \<open>An environment for examples: candidate 0 connects, the write to candidate 1
  fails, every other candidate does not open.\<close>

definition env1 :: "nat \<Rightarrow> attempt_outcome" where
  "env1 i = (if i = 0 then Connected else if i = 1 then WriteFails else OpenFails)"

section \<open>UDP datagram framing (proxy/udp.js)\<close>

definition joinUint8Array :: "bytes \<Rightarrow> bytes \<Rightarrow> bytes" where
  "joinUint8Array arr1 arr2 = arr1 @ arr2"

text \<open>
  The \<open>onmessage\<close> callback of \<open>makeReadableUDPStream\<close>: the chunk it enqueues for a
  message with \<open>info.size = size\<close>. The header bytes are \<open>(size >> 8) & 0xff\<close> and
  \<open>size & 0xff\<close>.
\<close>

definition udp_frame :: "nat \<Rightarrow> bytes \<Rightarrow> bytes" where
  "udp_frame info_size message =
     joinUint8Array [of_nat ((info_size div 256) mod 256), of_nat (info_size mod 256)] message"

text \<open>
  The \<open>while\<close> loop of the \<open>write\<close> method of \<open>makeWritableUDPStream\<close>. It returns
  the datagrams passed to \<open>udpClient.send\<close>, in order, and the value of
  \<open>leftoverData\<close> at the end of the loop (empty when the loop runs to the end of the
  array, since \<open>write\<close> cleared it before).
\<close>

function udp_write_loop :: "bytes \<Rightarrow> nat \<Rightarrow> bytes list \<times> bytes" where
  "udp_write_loop byteArray offset =
     (if offset < length byteArray then
        (if offset + 1 \<ge> length byteArray then ([], drop offset byteArray)
         else
           (let datagramLen = unat (byteArray ! offset) * 256 + unat (byteArray ! (offset + 1)) in
            if offset + 2 + datagramLen > length byteArray then ([], drop offset byteArray)
            else
              (case udp_write_loop byteArray (offset + 2 + datagramLen) of
                 (sent, leftoverData) \<Rightarrow>
                   (take datagramLen (drop (offset + 2) byteArray) # sent, leftoverData))))
      else ([], []))"
  by pat_completeness auto
termination
  by (relation "measure (\<lambda>(b, off). length b - off)") auto

declare udp_write_loop.simps [simp del]

definition udp_write :: "bytes \<Rightarrow> bytes \<Rightarrow> bytes list \<times> bytes" where
  "udp_write leftoverData chunk =
     (let byteArray = (if length leftoverData > 0 then joinUint8Array leftoverData chunk else chunk)
      in udp_write_loop byteArray 0)"

text \<open>A sequence of \<open>write\<close> calls on one stream, \<open>leftoverData\<close> carried along.\<close>

fun udp_writes :: "bytes \<Rightarrow> bytes list \<Rightarrow> bytes list \<times> bytes" where
  "udp_writes leftoverData [] = ([], leftoverData)"
| "udp_writes leftoverData (chunk # chunks) =
     (case udp_write leftoverData chunk of
        (sent, leftoverData') \<Rightarrow>
          (case udp_writes leftoverData' chunks of
             (sent', leftoverData'') \<Rightarrow> (sent @ sent', leftoverData'')))"

text \<open>The loop as a recursion on the array itself.\<close>

definition deframe :: "bytes \<Rightarrow> bytes list \<times> bytes" where
  "deframe b = udp_write_loop b 0"

definition frame_len :: "bytes \<Rightarrow> nat" where
  "frame_len b = unat (b ! 0) * 256 + unat (b ! 1)"

section \<open>Stream relay (proxy/stream.js) and TCP dispatch (proxy/tcp.js)\<close>

subsection \<open>remoteSocketToWS\<close>

text \<open>
  What the readable side of an outbound socket does: the chunks it delivers, each paired
  with whether \<open>webSocket.readyState\<close> is \<open>WS_READY_STATE_OPEN\<close> at the moment the
  chunk is written, and how the stream ends (it closes, or it errors).
\<close>

datatype stream_end = StreamClosed | StreamErrored

record remote_stream =
  stream_chunks :: "(bytes \<times> bool) list"
  stream_ending :: stream_end

text \<open>What the relay does to the outside, in order.\<close>

datatype relay_event =
    Send bytes            \<comment> \<open>\<open>webSocket.send(frame)\<close>\<close>
  | SafeCloseWebSocket    \<comment> \<open>\<open>safeCloseWebSocket(webSocket)\<close>\<close>
  | Retry                 \<comment> \<open>\<open>retry()\<close> is called\<close>

text \<open>
  The \<open>write\<close> method of the sink, run over the chunks. The state is the pair of the
  parameter \<open>protocolResponseHeader\<close> (set to null after the first send) and the flag
  \<open>hasIncomingData\<close>. The result is the frames sent, the final flag, and whether
  \<open>write\<close> threw \<open>WebSocket is not open\<close>, which makes \<open>pipeTo\<close> reject and ends the
  relay.
\<close>

fun relay_write :: "(bytes \<times> bool) list \<Rightarrow> bytes option \<Rightarrow> bool
    \<Rightarrow> relay_event list \<times> bool \<times> bool" where
  "relay_write [] protocolResponseHeader hasIncomingData = ([], hasIncomingData, False)"
| "relay_write ((chunk, ws_open) # rest) protocolResponseHeader hasIncomingData =
     (if \<not> ws_open then ([], hasIncomingData, True)
      else
        (case protocolResponseHeader of
           Some header \<Rightarrow>
             (case relay_write rest None True of
                (evs, h, threw) \<Rightarrow> (Send (header @ chunk) # evs, h, threw))
         | None \<Rightarrow>
             (case relay_write rest None True of
                (evs, h, threw) \<Rightarrow> (Send chunk # evs, h, threw))))"

text \<open>
  \<open>remoteSocketToWS\<close> up to the call of \<open>retry\<close>: the events, and whether \<open>retry\<close> is
  called. The \<open>catch\<close> block runs when \<open>pipeTo\<close> rejects, that is when \<open>write\<close> threw
  or the readable side errored.
\<close>

definition remoteSocketToWS :: "remote_stream \<Rightarrow> bytes option \<Rightarrow> bool
    \<Rightarrow> relay_event list \<times> bool" where
  "remoteSocketToWS remoteSocket protocolResponseHeader retry_given =
     (case relay_write (stream_chunks remoteSocket) protocolResponseHeader False of
        (evs, hasIncomingData, threw) \<Rightarrow>
          (let evs' = (if threw \<or> stream_ending remoteSocket = StreamErrored
                       then evs @ [SafeCloseWebSocket] else evs)
           in if \<not> hasIncomingData \<and> retry_given then (evs' @ [Retry], True) else (evs', False)))"

subsection \<open>handleTCPOutBound\<close>

text \<open>
  The configuration fields the dispatch reads, as truth values (JavaScript truthiness of
  \<open>config.globalProxy\<close>, \<open>config.proxyType\<close>, \<open>config.parsedProxyAddress\<close>,
  \<open>config.parsedVlessOutbound\<close>, \<open>config.proxyIP\<close>) and \<open>config.enableProxyFallback !== false\<close>.
\<close>

record tcp_config =
  globalProxy :: bool
  proxyType_set :: bool
  parsedProxyAddress_set :: bool
  parsedVlessOutbound_set :: bool
  proxyIP_set :: bool
  enableProxyFallback :: bool

text \<open>
  The outcome of one connection function: it throws (or its promise rejects), or it
  returns a socket with the given readable side.
\<close>

datatype conn_result = ConnFails | ConnOk remote_stream

text \<open>
  The environment of one dispatch: the outcome of the first \<open>connectDirect\<close>, of
  \<open>connectViaProxy\<close>, the candidate pool that \<open>resolveProxyAddresses\<close> returns with the
  outcome of an attempt on each index and the readable side of each candidate's socket,
  and the outcome of the \<open>connectDirect\<close> that \<open>retry\<close> or the fallback makes.
\<close>

record tcp_env =
  direct_first :: conn_result
  via_proxy :: conn_result
  pool :: "(jsstring \<times> nat) list"
  pool_attempt :: "nat \<Rightarrow> attempt_outcome"
  pool_stream :: "nat \<Rightarrow> remote_stream"
  direct_again :: conn_result

text \<open>\<open>connectWithProxyRotation(enableFallback)\<close>; the state is \<open>cachedProxyIndex\<close>.\<close>

definition connectWithProxyRotation :: "tcp_env \<Rightarrow> bytes \<Rightarrow> bool \<Rightarrow> nat \<Rightarrow> conn_result \<times> nat" where
  "connectWithProxyRotation env rawClientData enableFallback cachedProxyIndex =
     (let proxyAddresses = pool env;
          (result, cursor) =
            (if length proxyAddresses > 0 then
               (case connectWithRotation proxyAddresses rawClientData (pool_attempt env) cachedProxyIndex of
                  (r, c, evs) \<Rightarrow> (r, c))
             else (None, cachedProxyIndex))
      in case result of
           Some res \<Rightarrow> (ConnOk (pool_stream env (index res)), cursor)
         | None \<Rightarrow> (if enableFallback then (direct_again env, cursor) else (ConnFails, cursor)))"

text \<open>
  \<open>retry()\<close>. When the connection function throws, \<open>retry\<close> rejects and nothing more
  happens. Otherwise the new socket is relayed with \<open>null\<close> as retry argument.
\<close>

definition retry :: "tcp_config \<Rightarrow> tcp_env \<Rightarrow> bytes \<Rightarrow> bytes option \<Rightarrow> nat
    \<Rightarrow> relay_event list \<times> nat" where
  "retry config env rawClientData protocolResponseHeader cachedProxyIndex =
     (let hasProxyConfig = (parsedProxyAddress_set config \<or> parsedVlessOutbound_set config);
          (tcpSocket, cursor) =
            (if globalProxy config \<and> proxyType_set config \<and> hasProxyConfig
               then (via_proxy env, cachedProxyIndex)
             else if proxyIP_set config
               then connectWithProxyRotation env rawClientData (enableProxyFallback config) cachedProxyIndex
             else (direct_again env, cachedProxyIndex))
      in case tcpSocket of
           ConnFails \<Rightarrow> ([], cursor)
         | ConnOk remote \<Rightarrow> (fst (remoteSocketToWS remote protocolResponseHeader False), cursor))"

text \<open>
  \<open>handleTCPOutBound\<close>: the events of the whole dispatch, the call of \<open>retry\<close> followed
  by what \<open>retry\<close> does.
\<close>

definition handleTCPOutBound :: "tcp_config \<Rightarrow> tcp_env \<Rightarrow> bytes \<Rightarrow> bytes option \<Rightarrow> nat
    \<Rightarrow> relay_event list \<times> nat" where
  "handleTCPOutBound config env rawClientData protocolResponseHeader cachedProxyIndex =
     (let hasProxyConfig = (parsedProxyAddress_set config \<or> parsedVlessOutbound_set config)
      in if globalProxy config \<and> proxyType_set config \<and> hasProxyConfig then
           (case via_proxy env of
              ConnFails \<Rightarrow> ([], cachedProxyIndex)
            | ConnOk remote \<Rightarrow>
                (fst (remoteSocketToWS remote protocolResponseHeader False), cachedProxyIndex))
         else
           (case direct_first env of
              ConnOk remote \<Rightarrow>
                (case remoteSocketToWS remote protocolResponseHeader True of
                   (evs, retried) \<Rightarrow>
                     (if retried then
                        (case retry config env rawClientData protocolResponseHeader cachedProxyIndex of
                           (evs', cursor) \<Rightarrow> (evs @ evs', cursor))
                      else (evs, cachedProxyIndex)))
            | ConnFails \<Rightarrow>
                (case retry config env rawClientData protocolResponseHeader cachedProxyIndex of
                   (evs', cursor) \<Rightarrow> (Retry # evs', cursor))))"

text \<open>
  The response header that \<open>protocolOverWSHandler\<close> passes to the relay:
  \<open>protocolType === 'trojan' ? null : new Uint8Array([protocolVersion[0], 0])\<close>, where
  \<open>protocolVersion\<close> is the one-byte array of the VLESS parser.
\<close>

datatype protocol_type = Vless | Trojan

definition make_protocolResponseHeader :: "protocol_type \<Rightarrow> byte \<Rightarrow> bytes option" where
  "make_protocolResponseHeader protocolType version =
     (if protocolType = Trojan then None else Some [version, 0])"

text \<open>The frames sent to the WebSocket, the chunks that reach \<open>webSocket.send\<close> (those
  before the first chunk that finds the WebSocket not open), and the calls of \<open>retry\<close>.\<close>

fun sends :: "relay_event list \<Rightarrow> bytes list" where
  "sends [] = []"
| "sends (Send frame # evs) = frame # sends evs"
| "sends (_ # evs) = sends evs"

definition forwarded :: "remote_stream \<Rightarrow> bytes list" where
  "forwarded remoteSocket = map fst (takeWhile snd (stream_chunks remoteSocket))"

definition retries :: "relay_event list \<Rightarrow> nat" where
  "retries evs = length (filter (\<lambda>e. e = Retry) evs)"

section \<open>JavaScript strings, numbers and buffers\<close>

text \<open>Errors thrown: a \<open>RangeError\<close>, a \<open>TypeError\<close>, or a plain \<open>Error\<close>. A function
  that can throw returns \<open>Inl\<close> of the error.\<close>

datatype js_error = RangeError | TypeError | PlainError

subsection \<open>Number to string\<close>

definition digit_char :: "nat \<Rightarrow> 16 word" where
  "digit_char d = (if d < 10 then of_nat (48 + d) else of_nat (87 + d))"

text \<open>\<open>n.toString(radix)\<close> for a non-negative integer \<open>n\<close>.\<close>

function toString_radix :: "nat \<Rightarrow> nat \<Rightarrow> jsstring" where
  "toString_radix radix n =
     (if n < radix \<or> radix < 2 then [digit_char n]
      else toString_radix radix (n div radix) @ [digit_char (n mod radix)])"
  by pat_completeness auto
termination
  by (relation "measure (\<lambda>(radix, n). n)") auto

declare toString_radix.simps [simp del]

subsection \<open>String operations\<close>

text \<open>\<open>parts.join(sep)\<close>.\<close>

fun js_join :: "jsstring \<Rightarrow> jsstring list \<Rightarrow> jsstring" where
  "js_join sep [] = []"
| "js_join sep [x] = x"
| "js_join sep (x # y # ys) = x @ sep @ js_join sep (y # ys)"

text \<open>\<open>s.split(c)\<close> for a separator of one character.\<close>

fun js_split1 :: "16 word \<Rightarrow> jsstring \<Rightarrow> jsstring list" where
  "js_split1 c [] = [[]]"
| "js_split1 c (x # xs) =
     (if x = c then [] # js_split1 c xs
      else (case js_split1 c xs of p # ps \<Rightarrow> (x # p) # ps | [] \<Rightarrow> [[x]]))"

text \<open>White space and line terminators, the characters that \<open>trim\<close> removes.\<close>

definition js_whitespace :: "16 word \<Rightarrow> bool" where
  "js_whitespace c =
     (c \<in> {0x09, 0x0A, 0x0B, 0x0C, 0x0D, 0x20, 0xA0, 0x1680, 0x2028, 0x2029, 0x202F, 0x205F,
            0x3000, 0xFEFF} \<or> (0x2000 \<le> c \<and> c \<le> 0x200A))"

definition js_trim :: "jsstring \<Rightarrow> jsstring" where
  "js_trim s = rev (dropWhile js_whitespace (rev (dropWhile js_whitespace s)))"

text \<open>\<open>toLowerCase\<close> on the ASCII letters. Code units from \<open>0x80\<close> on are left as they
  are, Unicode case mapping is not modelled.\<close>

definition toLowerCase :: "jsstring \<Rightarrow> jsstring" where
  "toLowerCase s = map (\<lambda>c. if 0x41 \<le> c \<and> c \<le> 0x5A then c + 0x20 else c) s"

subsection \<open>UTF-8\<close>

text \<open>
  \<open>new TextDecoder().decode(bytes)\<close>: the UTF-8 decoder of the Encoding Standard, with
  replacement of malformed sequences by U+FFFD and removal of a leading byte order mark.
  The state of the decoder is the code point collected so far, the number of
  continuation bytes still needed and the bounds for the next byte.
\<close>

record utf8_state =
  code_point :: nat
  bytes_needed :: nat
  lower_boundary :: nat
  upper_boundary :: nat

definition utf8_init :: utf8_state where
  "utf8_init = \<lparr>code_point = 0, bytes_needed = 0, lower_boundary = 0x80, upper_boundary = 0xBF\<rparr>"

text \<open>The UTF-16 code units of a code point.\<close>

definition code_units :: "nat \<Rightarrow> jsstring" where
  "code_units cp =
     (if cp < 0x10000 then [of_nat cp]
      else [of_nat (0xD800 + (cp - 0x10000) div 0x400), of_nat (0xDC00 + (cp - 0x10000) mod 0x400)])"

text \<open>A byte read with no sequence open.\<close>

definition utf8_lead :: "nat \<Rightarrow> jsstring \<times> utf8_state" where
  "utf8_lead b =
     (if b \<le> 0x7F then ([of_nat b], utf8_init)
      else if 0xC2 \<le> b \<and> b \<le> 0xDF then
        ([], utf8_init\<lparr>code_point := b mod 0x20, bytes_needed := 1\<rparr>)
      else if 0xE0 \<le> b \<and> b \<le> 0xEF then
        ([], \<lparr>code_point = b mod 0x10, bytes_needed = 2,
               lower_boundary = (if b = 0xE0 then 0xA0 else 0x80),
               upper_boundary = (if b = 0xED then 0x9F else 0xBF)\<rparr>)
      else if 0xF0 \<le> b \<and> b \<le> 0xF4 then
        ([], \<lparr>code_point = b mod 0x08, bytes_needed = 3,
               lower_boundary = (if b = 0xF0 then 0x90 else 0x80),
               upper_boundary = (if b = 0xF4 then 0x8F else 0xBF)\<rparr>)
      else ([0xFFFD], utf8_init))"

text \<open>One byte: the code units it completes and the next state. A byte outside the
  bounds ends the open sequence with U+FFFD and is read again with no sequence open.\<close>

definition utf8_step :: "utf8_state \<Rightarrow> nat \<Rightarrow> jsstring \<times> utf8_state" where
  "utf8_step st b =
     (if bytes_needed st = 0 then utf8_lead b
      else if b < lower_boundary st \<or> upper_boundary st < b then
        (case utf8_lead b of (out, st') \<Rightarrow> (0xFFFD # out, st'))
      else
        (let cp = code_point st * 64 + b mod 0x40 in
         if bytes_needed st = 1 then (code_units cp, utf8_init)
         else ([], \<lparr>code_point = cp, bytes_needed = bytes_needed st - 1,
                     lower_boundary = 0x80, upper_boundary = 0xBF\<rparr>)))"

fun utf8_run :: "utf8_state \<Rightarrow> bytes \<Rightarrow> jsstring" where
  "utf8_run st [] = (if bytes_needed st \<noteq> 0 then [0xFFFD] else [])"
| "utf8_run st (b # bs) = (case utf8_step st (unat b) of (out, st') \<Rightarrow> out @ utf8_run st' bs)"

definition TextDecoder_decode :: "bytes \<Rightarrow> jsstring" where
  "TextDecoder_decode bs =
     (case utf8_run utf8_init bs of
        [] \<Rightarrow> []
      | c # cs \<Rightarrow> if c = 0xFEFF then cs else c # cs)"

text \<open>\<open>new TextEncoder().encode(s)\<close>: UTF-8, a surrogate without its partner is encoded
  as U+FFFD.\<close>

definition utf8_bytes :: "nat \<Rightarrow> bytes" where
  "utf8_bytes cp =
     (if cp < 0x80 then [of_nat cp]
      else if cp < 0x800 then [of_nat (0xC0 + cp div 0x40), of_nat (0x80 + cp mod 0x40)]
      else if cp < 0x10000 then
        [of_nat (0xE0 + cp div 0x1000), of_nat (0x80 + (cp div 0x40) mod 0x40),
         of_nat (0x80 + cp mod 0x40)]
      else
        [of_nat (0xF0 + cp div 0x40000), of_nat (0x80 + (cp div 0x1000) mod 0x40),
         of_nat (0x80 + (cp div 0x40) mod 0x40), of_nat (0x80 + cp mod 0x40)])"

fun TextEncoder_encode :: "jsstring \<Rightarrow> bytes" where
  "TextEncoder_encode [] = []"
| "TextEncoder_encode [c] =
     (if 0xD800 \<le> c \<and> c \<le> 0xDFFF then utf8_bytes 0xFFFD else utf8_bytes (unat c))"
| "TextEncoder_encode (c # d # ds) =
     (if 0xD800 \<le> c \<and> c \<le> 0xDBFF \<and> 0xDC00 \<le> d \<and> d \<le> 0xDFFF then
        utf8_bytes (0x10000 + (unat c - 0xD800) * 0x400 + (unat d - 0xDC00)) @ TextEncoder_encode ds
      else if 0xD800 \<le> c \<and> c \<le> 0xDFFF then utf8_bytes 0xFFFD @ TextEncoder_encode (d # ds)
      else utf8_bytes (unat c) @ TextEncoder_encode (d # ds))"

section \<open>SHA-224 (utils/crypto.js)\<close>

definition rightRotate :: "32 word \<Rightarrow> nat \<Rightarrow> 32 word" where
  "rightRotate v amount = (drop_bit amount v) OR (push_bit (32 - amount) v)"

definition sha224_initial_hash :: "32 word list" where
  "sha224_initial_hash =
     [0xC1059ED8, 0x367CD507, 0x3070DD17, 0xF70E5939,
      0xFFC00B31, 0x68581511, 0x64F98FA7, 0xBEFA4FA4]"

definition sha224_k :: "32 word list" where
  "sha224_k =
    [0x428A2F98, 0x71374491, 0xB5C0FBCF, 0xE9B5DBA5, 0x3956C25B, 0x59F111F1, 0x923F82A4, 0xAB1C5ED5,
     0xD807AA98, 0x12835B01, 0x243185BE, 0x550C7DC3, 0x72BE5D74, 0x80DEB1FE, 0x9BDC06A7, 0xC19BF174,
     0xE49B69C1, 0xEFBE4786, 0x0FC19DC6, 0x240CA1CC, 0x2DE92C6F, 0x4A7484AA, 0x5CB0A9DC, 0x76F988DA,
     0x983E5152, 0xA831C66D, 0xB00327C8, 0xBF597FC7, 0xC6E00BF3, 0xD5A79147, 0x06CA6351, 0x14292967,
     0x27B70A85, 0x2E1B2138, 0x4D2C6DFC, 0x53380D13, 0x650A7354, 0x766A0ABB, 0x81C2C92E, 0x92722C85,
     0xA2BFE8A1, 0xA81A664B, 0xC24B8B70, 0xC76C51A3, 0xD192E819, 0xD6990624, 0xF40E3585, 0x106AA070,
     0x19A4C116, 0x1E376C08, 0x2748774C, 0x34B0BCB5, 0x391C0CB3, 0x4ED8AA4A, 0x5B9CCA4F, 0x682E6FF3,
     0x748F82EE, 0x78A5636F, 0x84C87814, 0x8CC70208, 0x90BEFFFA, 0xA4506CEB, 0xBEF9A3F7, 0xC67178F2]"

text \<open>\<open>while (str.length % 64 - 56) str += '\x00'\<close>\<close>

function sha224_pad :: "jsstring \<Rightarrow> jsstring" where
  "sha224_pad str = (if length str mod 64 \<noteq> 56 then sha224_pad (str @ [0]) else str)"
  by pat_completeness auto
termination
proof (relation "measure (\<lambda>str. (120 - length str mod 64) mod 64)")
  show "wf (measure (\<lambda>str :: jsstring. (120 - length str mod 64) mod 64))" by simp
next
  fix str :: jsstring
  assume a: "length str mod 64 \<noteq> 56"
  define m where "m = length str mod 64"
  have m: "m < 64" "m \<noteq> 56" using a by (simp_all add: m_def)
  have s: "Suc (length str) mod 64 = (if m = 63 then 0 else Suc m)"
    by (simp add: mod_Suc m_def)
  have "(120 - (if m = 63 then 0 else Suc m)) mod 64 < (120 - m) mod 64"
    using m by (cases "m < 56") (auto simp: mod_if)
  then have "(120 - Suc (length str) mod 64) mod 64 < (120 - length str mod 64) mod 64"
    unfolding s m_def .
  then show "(str @ [0], str) \<in> measure (\<lambda>str. (120 - length str mod 64) mod 64)"
    by simp
qed

declare sha224_pad.simps [simp del]

text \<open>
  The shift count of \<open>j << ((3 - i) % 4) * 8\<close>: the remainder \<open>%\<close> has the sign of
  \<open>3 - i\<close>, and \<open><<\<close> uses its right operand modulo 32.
\<close>

definition sha224_shift :: "nat \<Rightarrow> nat" where
  "sha224_shift i =
     (let d = 3 - int i;
          r = (if d < 0 then - ((- d) mod 4) else d mod 4)
      in nat ((r * 8) mod 32))"

text \<open>\<open>words[k] |= x\<close>, where \<open>k\<close> is at most the length of \<open>words\<close>; at the length the
  array grows by the element \<open>x\<close>.\<close>

definition words_or :: "32 word list \<Rightarrow> nat \<Rightarrow> 32 word \<Rightarrow> 32 word list" where
  "words_or words k x = (if k < length words then words[k := (words ! k) OR x] else words @ [x])"

text \<open>The loop over the characters; \<open>None\<close> is the \<open>return\<close> of the check \<open>j >> 8\<close>.\<close>

fun sha224_words :: "jsstring \<Rightarrow> nat \<Rightarrow> 32 word list \<Rightarrow> 32 word list option" where
  "sha224_words [] i words = Some words"
| "sha224_words (j # str) i words =
     (if drop_bit 8 j \<noteq> 0 then None
      else sha224_words str (i + 1) (words_or words (i div 4) (push_bit (sha224_shift i) (ucast j))))"

text \<open>One pass of the inner loop \<open>for (i = 0; i < 64; i++)\<close> on the schedule \<open>w\<close> and the
  working variables \<open>hash\<close>.\<close>

definition sha224_round :: "32 word list \<times> 32 word list \<Rightarrow> nat \<Rightarrow> 32 word list \<times> 32 word list" where
  "sha224_round wh i =
     (let w = fst wh; hash = snd wh;
          w = (if i \<ge> 16 then
                 (let w15 = w ! (i - 15); w2 = w ! (i - 2) in
                  w @ [w ! (i - 16)
                       + (rightRotate w15 7 XOR rightRotate w15 18 XOR drop_bit 3 w15)
                       + w ! (i - 7)
                       + (rightRotate w2 17 XOR rightRotate w2 19 XOR drop_bit 10 w2)])
               else w);
          a = hash ! 0; e = hash ! 4;
          temp1 = hash ! 7
                  + (rightRotate e 6 XOR rightRotate e 11 XOR rightRotate e 25)
                  + ((e AND hash ! 5) XOR (NOT e AND hash ! 6))
                  + sha224_k ! i
                  + w ! i;
          temp2 = (rightRotate a 2 XOR rightRotate a 13 XOR rightRotate a 22)
                  + ((a AND hash ! 1) XOR (a AND hash ! 2) XOR (hash ! 1 AND hash ! 2));
          hash = (temp1 + temp2) # hash;
          hash = hash[4 := hash ! 4 + temp1];
          hash = butlast hash
      in (w, hash))"

text \<open>The body of the outer loop for one block \<open>w\<close> of 16 words: the 64 rounds,
  then \<open>hash[i] = (hash[i] + oldHash[i]) | 0\<close> for the eight working variables.\<close>

definition sha224_block :: "32 word list \<Rightarrow> 32 word list \<Rightarrow> 32 word list" where
  "sha224_block w hash =
     (let oldHash = hash;
          hash = snd (foldl sha224_round (w, hash) [0..<64])
      in map (\<lambda>i. hash ! i + oldHash ! i) [0..<8] @ drop 8 hash)"

text \<open>The outer loop \<open>for (j = 0; j < words.length;)\<close> with
  \<open>w = words.slice(j, j += 16)\<close>.\<close>

function sha224_chunks :: "32 word list \<Rightarrow> 32 word list \<Rightarrow> 32 word list" where
  "sha224_chunks words hash =
     (if words = [] then hash
      else sha224_chunks (drop 16 words) (sha224_block (take 16 words) hash))"
  by pat_completeness auto
termination
  by (relation "measure (\<lambda>(words, hash). length words)") auto

declare sha224_chunks.simps [simp del]

definition hex8 :: "32 word \<Rightarrow> jsstring" where
  "hex8 h = map (\<lambda>s. digit_char (unat (drop_bit s h AND 0xf))) [28, 24, 20, 16, 12, 8, 4, 0]"

definition sha224 :: "jsstring \<Rightarrow> jsstring option" where
  "sha224 str =
     (let asciiBitLength = length str * 8;
          str = sha224_pad (str @ [0x80])
      in case sha224_words str 0 [] of
           None \<Rightarrow> None
         | Some words \<Rightarrow>
             (let words = words @ [of_nat (asciiBitLength div 2 ^ 32)];
                  words = words @ [of_nat asciiBitLength];
                  hash = sha224_chunks words sha224_initial_hash
              in Some (concat (map (\<lambda>i. hex8 (hash ! i)) [0..<7]))))"

section \<open>Buffers\<close>

text \<open>\<open>buffer.slice(start, end)\<close> for \<open>0 \<le> start\<close> and \<open>0 \<le> end\<close>: both ends are cut to the
  length, and the result is empty when \<open>end \<le> start\<close>.\<close>

definition buf_slice :: "'a list \<Rightarrow> nat \<Rightarrow> nat \<Rightarrow> 'a list" where
  "buf_slice buffer start end = take (end - start) (drop start buffer)"

text \<open>\<open>dataView.getUint8(i)\<close> and \<open>dataView.getUint16(i)\<close> (big-endian); both throw a
  \<open>RangeError\<close> when the read would pass the end of the buffer.\<close>

definition getUint8 :: "bytes \<Rightarrow> nat \<Rightarrow> js_error + nat" where
  "getUint8 buffer i = (if i < length buffer then Inr (unat (buffer ! i)) else Inl RangeError)"

definition getUint16 :: "bytes \<Rightarrow> nat \<Rightarrow> js_error + nat" where
  "getUint16 buffer i =
     (if i + 2 \<le> length buffer then Inr (unat (buffer ! i) * 256 + unat (buffer ! (i + 1)))
      else Inl RangeError)"

text \<open>\<open>bytes[i]\<close> on a \<open>Uint8Array\<close>: \<open>None\<close> is \<open>undefined\<close>.\<close>

definition byte_at :: "bytes \<Rightarrow> nat \<Rightarrow> nat option" where
  "byte_at buffer i = (if i < length buffer then Some (unat (buffer ! i)) else None)"

section \<open>UUID strings (utils/encoding.js, utils/validation.js)\<close>

definition is_hex_char :: "16 word \<Rightarrow> bool" where
  "is_hex_char c = ((0x30 \<le> c \<and> c \<le> 0x39) \<or> (0x61 \<le> c \<and> c \<le> 0x66) \<or> (0x41 \<le> c \<and> c \<le> 0x46))"

text \<open>The regular expression of \<open>isValidUUID\<close>, with the flag \<open>i\<close>:
  \<open>^[0-9a-f]{8}-[0-9a-f]{4}-[1-5][0-9a-f]{3}-[89ab][0-9a-f]{3}-[0-9a-f]{12}$\<close>.\<close>

definition isValidUUID :: "jsstring \<Rightarrow> bool" where
  "isValidUUID uuid =
     (length uuid = 36
      \<and> list_all is_hex_char (buf_slice uuid 0 8) \<and> uuid ! 8 = 0x2D
      \<and> list_all is_hex_char (buf_slice uuid 9 13) \<and> uuid ! 13 = 0x2D
      \<and> (0x31 \<le> uuid ! 14 \<and> uuid ! 14 \<le> 0x35)
      \<and> list_all is_hex_char (buf_slice uuid 15 18) \<and> uuid ! 18 = 0x2D
      \<and> uuid ! 19 \<in> {0x38, 0x39, 0x61, 0x62, 0x41, 0x42}
      \<and> list_all is_hex_char (buf_slice uuid 20 23) \<and> uuid ! 23 = 0x2D
      \<and> list_all is_hex_char (buf_slice uuid 24 36))"

text \<open>\<open>byteToHex[b]\<close>, which is \<open>(b + 0x100).toString(16).slice(1)\<close>.\<close>

definition byteToHex :: "byte \<Rightarrow> jsstring" where
  "byteToHex b = drop 1 (toString_radix 16 (unat b + 0x100))"

text \<open>\<open>byteToHex[arr[i]]\<close> as \<open>join\<close> sees it: \<open>undefined\<close> (past the end of \<open>arr\<close>)
  contributes the empty string.\<close>

definition hex_at :: "bytes \<Rightarrow> nat \<Rightarrow> jsstring" where
  "hex_at arr i = (if i < length arr then byteToHex (arr ! i) else [])"

definition unsafeStringify :: "bytes \<Rightarrow> nat \<Rightarrow> jsstring" where
  "unsafeStringify arr offset =
     toLowerCase (concat
       [hex_at arr offset, hex_at arr (offset + 1), hex_at arr (offset + 2), hex_at arr (offset + 3),
        [0x2D],
        hex_at arr (offset + 4), hex_at arr (offset + 5),
        [0x2D],
        hex_at arr (offset + 6), hex_at arr (offset + 7),
        [0x2D],
        hex_at arr (offset + 8), hex_at arr (offset + 9),
        [0x2D],
        hex_at arr (offset + 10), hex_at arr (offset + 11), hex_at arr (offset + 12),
        hex_at arr (offset + 13), hex_at arr (offset + 14), hex_at arr (offset + 15)])"

definition stringify :: "bytes \<Rightarrow> nat \<Rightarrow> js_error + jsstring" where
  "stringify arr offset =
     (let uuid = unsafeStringify arr offset
      in if \<not> isValidUUID uuid then Inl TypeError else Inr uuid)"

section \<open>Protocol headers\<close>

text \<open>The object a header parser returns with \<open>hasError: false\<close>. The Trojan parser sets
  no \<open>protocolVersion\<close>.\<close>

record protocol_header =
  addressRemote :: jsstring
  addressType :: nat
  portRemote :: nat
  rawDataIndex :: nat
  protocolVersion :: "bytes option"
  isUDP :: bool

text \<open>The messages of the objects returned with \<open>hasError: true\<close>, one constructor for
  each message text, with the values the text prints (\<open>None\<close> prints as \<open>undefined\<close>).\<close>

datatype parse_message =
    InvalidData                               \<comment> \<open>\<open>invalid data\<close>\<close>
  | InvalidUser                               \<comment> \<open>\<open>invalid user\<close>\<close>
  | CommandNotSupported nat                   \<comment> \<open>\<open>command N is not supported, ...\<close>\<close>
  | InvalidAddressType nat                    \<comment> \<open>\<open>invalid addressType: N\<close>\<close>
  | AddressValueEmpty nat                     \<comment> \<open>\<open>addressValue is empty, addressType is N\<close>\<close>
  | TrojanTooShort                            \<comment> \<open>\<open>Invalid Trojan data: too short\<close>\<close>
  | TrojanInvalidPassword                     \<comment> \<open>\<open>Invalid Trojan password\<close>\<close>
  | TrojanMissingCRLF                         \<comment> \<open>\<open>Invalid Trojan header: missing CRLF\<close>\<close>
  | TrojanUnsupportedCommand "nat option"     \<comment> \<open>\<open>Unsupported Trojan command: N\<close>\<close>
  | TrojanIPv4Truncated                       \<comment> \<open>\<open>... IPv4 address truncated\<close>\<close>
  | TrojanDomainTruncated                     \<comment> \<open>\<open>... domain name truncated\<close>\<close>
  | TrojanIPv6Truncated                       \<comment> \<open>\<open>... IPv6 address truncated\<close>\<close>
  | TrojanInvalidAddressType "nat option"     \<comment> \<open>\<open>Invalid Trojan address type: N\<close>\<close>
  | TrojanPortTruncated                       \<comment> \<open>\<open>... port truncated\<close>\<close>
  | TrojanMissingFinalCRLF                    \<comment> \<open>\<open>... missing final CRLF\<close>\<close>
  | TrojanInvalidFinalCRLF                    \<comment> \<open>\<open>... invalid final CRLF\<close>\<close>
  | TrojanAddressEmpty nat                    \<comment> \<open>\<open>Address value is empty, address type is N\<close>\<close>

datatype parse_result = HasError parse_message | Parsed protocol_header

subsection \<open>processProtocolHeader (protocol/vless.js)\<close>

text \<open>The address field: the value, its length and its index, \<open>None\<close> for the
  \<open>default\<close> branch of the \<open>switch\<close>.\<close>

definition vless_address :: "bytes \<Rightarrow> nat \<Rightarrow> nat \<Rightarrow> js_error + (jsstring \<times> nat \<times> nat) option" where
  "vless_address protocolBuffer portIndex addressType' =
     (if addressType' = 1 then
        (let addressLength = 4; addressValueIndex = portIndex + 3 in
         Inr (Some (js_join (js ''.'')
                      (map (\<lambda>b. toString_radix 10 (unat b))
                         (buf_slice protocolBuffer addressValueIndex (addressValueIndex + addressLength))),
                    addressLength, addressValueIndex)))
      else if addressType' = 2 then
        (case getUint8 protocolBuffer (portIndex + 3) of
           Inl e \<Rightarrow> Inl e
         | Inr addressLength \<Rightarrow>
             (let addressValueIndex = portIndex + 4 in
              Inr (Some (TextDecoder_decode
                           (buf_slice protocolBuffer addressValueIndex (addressValueIndex + addressLength)),
                         addressLength, addressValueIndex))))
      else if addressType' = 3 then
        (let addressLength = 16; addressValueIndex = portIndex + 3;
             groups = map (\<lambda>i. getUint16 protocolBuffer (addressValueIndex + i * 2)) [0..<8]
         in if \<exists>g\<in>set groups. isl g then Inl RangeError
            else Inr (Some (js_join (js '':'') (map (\<lambda>g. toString_radix 16 (projr g)) groups),
                            addressLength, addressValueIndex)))
      else Inr None)"

definition processProtocolHeader :: "bytes \<Rightarrow> jsstring \<Rightarrow> js_error + parse_result" where
  "processProtocolHeader protocolBuffer userID =
     (if length protocolBuffer < 24 then Inr (HasError InvalidData)
      else
        (let version = protocolBuffer ! 0 in
         case stringify (buf_slice protocolBuffer 1 17) 0 of
           Inl e \<Rightarrow> Inl e
         | Inr slicedBufferString \<Rightarrow>
             (let uuids = (if 0x2C \<in> set userID then js_split1 0x2C userID else [userID]);
                  isValidUser = ((\<exists>uuid\<in>set uuids. slicedBufferString = js_trim uuid)
                                 \<or> (length uuids = 1 \<and> slicedBufferString = js_trim (uuids ! 0)))
              in if \<not> isValidUser then Inr (HasError InvalidUser)
                 else
                   (let optLength = unat (protocolBuffer ! 17) in
                    case getUint8 protocolBuffer (18 + optLength) of
                      Inl e \<Rightarrow> Inl e
                    | Inr command \<Rightarrow>
                        if command \<noteq> 1 \<and> command \<noteq> 2 then Inr (HasError (CommandNotSupported command))
                        else
                          (let portIndex = 18 + optLength + 1 in
                           case getUint16 protocolBuffer portIndex of
                             Inl e \<Rightarrow> Inl e
                           | Inr portRemote' \<Rightarrow>
                               (case getUint8 protocolBuffer (portIndex + 2) of
                                  Inl e \<Rightarrow> Inl e
                                | Inr addressType' \<Rightarrow>
                                    (case vless_address protocolBuffer portIndex addressType' of
                                       Inl e \<Rightarrow> Inl e
                                     | Inr None \<Rightarrow> Inr (HasError (InvalidAddressType addressType'))
                                     | Inr (Some (addressValue, addressLength, addressValueIndex)) \<Rightarrow>
                                         if addressValue = [] then
                                           Inr (HasError (AddressValueEmpty addressType'))
                                         else
                                           Inr (Parsed
                                             \<lparr>addressRemote = addressValue,
                                              addressType = addressType',
                                              portRemote = portRemote',
                                              rawDataIndex = addressValueIndex + addressLength,
                                              protocolVersion = Some [version],
                                              isUDP = (command = 2)\<rparr>))))))))"

subsection \<open>Trojan (protocol/trojan.js)\<close>

definition TROJAN_CMD_TCP :: nat where "TROJAN_CMD_TCP = 0x01"
definition TROJAN_CMD_UDP :: nat where "TROJAN_CMD_UDP = 0x03"

text \<open>\<open>sha224(password)\<close> is \<open>undefined\<close> (\<open>None\<close>) for a password with a code unit above
  \<open>0xFF\<close>; a string is never \<open>===\<close> to \<open>undefined\<close>. Nothing in the \<open>try\<close> block throws.\<close>

definition isTrojanProtocol :: "bytes \<Rightarrow> jsstring \<Rightarrow> bool" where
  "isTrojanProtocol buffer password =
     (if length buffer < 58 then False
      else if byte_at buffer 56 \<noteq> Some 0x0d \<or> byte_at buffer 57 \<noteq> Some 0x0a then False
      else
        (let receivedPasswordHash = TextDecoder_decode (buf_slice buffer 0 56);
             expectedPasswordHash = sha224 password
         in Some receivedPasswordHash = expectedPasswordHash))"

text \<open>
  The \<open>switch\<close> on the address type: an error object, or the address value, its length
  and its index. In the Domain branch a buffer of exactly 60 bytes has
  \<open>bytes[60] = undefined\<close>: every later index is \<open>NaN\<close>, every comparison of the length
  with it is false, \<open>getUint16(NaN)\<close> reads at index 0 and \<open>bytes[NaN]\<close> is \<open>undefined\<close>,
  so the parser returns the error of the final CRLF check.
\<close>

definition trojan_address :: "bytes \<Rightarrow> nat option
    \<Rightarrow> js_error + (parse_message + (jsstring \<times> nat \<times> nat))" where
  "trojan_address buffer addressType' =
     (if addressType' = Some 1 then
        (let addressLength = 4; addressValueIndex = 60 in
         if length buffer < addressValueIndex + addressLength + 2 then Inr (Inl TrojanIPv4Truncated)
         else Inr (Inr (js_join (js ''.'')
                          (map (\<lambda>b. toString_radix 10 (unat b))
                             (buf_slice buffer addressValueIndex (addressValueIndex + addressLength))),
                        addressLength, addressValueIndex)))
      else if addressType' = Some 3 then
        (case byte_at buffer 60 of
           None \<Rightarrow> Inr (Inl TrojanInvalidFinalCRLF)
         | Some addressLength \<Rightarrow>
             (let addressValueIndex = 61 in
              if length buffer < addressValueIndex + addressLength + 2 then Inr (Inl TrojanDomainTruncated)
              else Inr (Inr (TextDecoder_decode
                               (buf_slice buffer addressValueIndex (addressValueIndex + addressLength)),
                             addressLength, addressValueIndex))))
      else if addressType' = Some 4 then
        (let addressLength = 16; addressValueIndex = 60 in
         if length buffer < addressValueIndex + addressLength + 2 then Inr (Inl TrojanIPv6Truncated)
         else
           (let groups = map (\<lambda>i. getUint16 buffer (addressValueIndex + i * 2)) [0..<8]
            in if \<exists>g\<in>set groups. isl g then Inl RangeError
               else Inr (Inr (js_join (js '':'') (map (\<lambda>g. toString_radix 16 (projr g)) groups),
                              addressLength, addressValueIndex))))
      else Inr (Inl (TrojanInvalidAddressType addressType')))"

definition processTrojanHeader :: "bytes \<Rightarrow> jsstring \<Rightarrow> js_error + parse_result" where
  "processTrojanHeader buffer password =
     (if length buffer < 58 then Inr (HasError TrojanTooShort)
      else
        (let receivedPasswordHash = TextDecoder_decode (buf_slice buffer 0 56);
             expectedPasswordHash = sha224 password
         in if Some receivedPasswordHash \<noteq> expectedPasswordHash then Inr (HasError TrojanInvalidPassword)
            else if byte_at buffer 56 \<noteq> Some 0x0d \<or> byte_at buffer 57 \<noteq> Some 0x0a then
              Inr (HasError TrojanMissingCRLF)
            else
              (let command = byte_at buffer 58 in
               if command \<noteq> Some TROJAN_CMD_TCP \<and> command \<noteq> Some TROJAN_CMD_UDP then
                 Inr (HasError (TrojanUnsupportedCommand command))
               else
                 (let addressType' = byte_at buffer 59 in
                  case trojan_address buffer addressType' of
                    Inl e \<Rightarrow> Inl e
                  | Inr (Inl m) \<Rightarrow> Inr (HasError m)
                  | Inr (Inr (addressValue, addressLength, addressValueIndex)) \<Rightarrow>
                      (let portIndex = addressValueIndex + addressLength in
                       if length buffer < portIndex + 2 then Inr (HasError TrojanPortTruncated)
                       else
                         (case getUint16 buffer portIndex of
                            Inl e \<Rightarrow> Inl e
                          | Inr portRemote' \<Rightarrow>
                              (let crlfIndex = portIndex + 2 in
                               if length buffer < crlfIndex + 2 then Inr (HasError TrojanMissingFinalCRLF)
                               else if byte_at buffer crlfIndex \<noteq> Some 0x0d
                                       \<or> byte_at buffer (crlfIndex + 1) \<noteq> Some 0x0a then
                                 Inr (HasError TrojanInvalidFinalCRLF)
                               else
                                 (let rawDataIndex' = crlfIndex + 2 in
                                  if addressValue = [] then
                                    Inr (HasError (TrojanAddressEmpty (the addressType')))
                                  else
                                    Inr (Parsed
                                      \<lparr>addressRemote = addressValue,
                                       addressType = (if addressType' = Some 3 then 2 else the addressType'),
                                       portRemote = portRemote',
                                       rawDataIndex = rawDataIndex',
                                       protocolVersion = None,
                                       isUDP = (command = Some TROJAN_CMD_UDP)\<rparr>)))))))))"

text \<open>The bytes of a string of ASCII characters, and a Trojan request as a client builds
  it: the hash in hexadecimal, CRLF, command, address type, address, port, CRLF, payload.\<close>

definition ascii_bytes :: "jsstring \<Rightarrow> bytes" where
  "ascii_bytes s = map ucast s"

definition trojan_request :: "jsstring \<Rightarrow> byte \<Rightarrow> byte \<Rightarrow> bytes \<Rightarrow> nat \<Rightarrow> bytes \<Rightarrow> bytes" where
  "trojan_request hash command addressType' address port payload =
     ascii_bytes hash @ [0x0d, 0x0a] @ [command, addressType'] @ address
       @ [of_nat (port div 256), of_nat (port mod 256)] @ [0x0d, 0x0a] @ payload"

section \<open>The WebSocket handler (handlers/websocket.js, protocol/dns.js)\<close>

subsection \<open>handleDNSQuery\<close>

text \<open>
  What \<open>handleDNSQuery\<close> does to the outside: it connects to the resolver, writes the
  chunk, and sends response frames to the WebSocket. The resolver is given as the
  outcome of \<open>connect\<close> and, when it connects, the readable side of the socket. A
  response chunk that finds the WebSocket not open is dropped. Every exception is caught.
\<close>

datatype dns_event =
    DnsConnect jsstring nat
  | DnsWrite bytes
  | DnsSend bytes

fun dns_relay :: "(bytes \<times> bool) list \<Rightarrow> bytes option \<Rightarrow> dns_event list" where
  "dns_relay [] vlessHeader = []"
| "dns_relay ((chunk, ws_open) # rest) vlessHeader =
     (if ws_open then
        (case vlessHeader of
           Some header \<Rightarrow> DnsSend (header @ chunk) # dns_relay rest None
         | None \<Rightarrow> DnsSend chunk # dns_relay rest None)
      else dns_relay rest vlessHeader)"

definition handleDNSQuery :: "conn_result \<Rightarrow> bytes \<Rightarrow> bytes option \<Rightarrow> dns_event list" where
  "handleDNSQuery resolver udpChunk protocolResponseHeader =
     (let dnsServer = js ''8.8.4.4''; dnsPort = 53; vlessHeader = protocolResponseHeader
      in case resolver of
           ConnFails \<Rightarrow> [DnsConnect dnsServer dnsPort]
         | ConnOk tcpSocket \<Rightarrow>
             DnsConnect dnsServer dnsPort # DnsWrite udpChunk
               # dns_relay (stream_chunks tcpSocket) vlessHeader)"

subsection \<open>protocolOverWSHandler\<close>

text \<open>
  The configuration fields the handler reads; \<open>canHandleUDP\<close> is the result of
  \<open>canHandleUDP(config)\<close>. The state of a session is the variable \<open>isDns\<close> and whether
  \<open>remoteSocketWrapper.value\<close> is set (the dispatch sets it, not the handler).
\<close>

record ws_config =
  trojanPassword :: jsstring
  userID :: jsstring
  canHandleUDP :: bool

record ws_state =
  isDns :: bool
  remoteSocket_set :: bool

text \<open>What one call of the \<open>write\<close> method of the sink does with a chunk: the function
  it calls with its arguments, a plain \<open>return\<close>, or the exception it throws.\<close>

datatype ws_throw = HeaderError parse_message | Thrown js_error | UdpRequiresVlessOutbound

datatype ws_action =
    HandleDNSQuery bytes "bytes option"
  | WriteToRemote bytes
  | HandleUDPOutbound "bytes option" nat jsstring nat bytes
  | HandleTCPOutBound nat jsstring nat bytes "bytes option"
  | Return
  | Throw ws_throw

text \<open>The detection of the protocol of the first chunk, and the parse it leads to.\<close>

definition detect_protocol :: "ws_config \<Rightarrow> bytes \<Rightarrow> protocol_type \<times> (js_error + parse_result)" where
  "detect_protocol config chunk =
     (if isTrojanProtocol chunk (trojanPassword config)
      then (Trojan, processTrojanHeader chunk (trojanPassword config))
      else (Vless, processProtocolHeader chunk (userID config)))"

definition ws_write :: "ws_config \<Rightarrow> ws_state \<Rightarrow> bytes \<Rightarrow> ws_action \<times> ws_state" where
  "ws_write config st chunk =
     (if isDns st then (HandleDNSQuery chunk None, st)
      else if remoteSocket_set st then (WriteToRemote chunk, st)
      else
        (let (protocolType, protocolResult) = detect_protocol config chunk
         in case protocolResult of
              Inl e \<Rightarrow> (Throw (Thrown e), st)
            | Inr (HasError message) \<Rightarrow> (Throw (HeaderError message), st)
            | Inr (Parsed h) \<Rightarrow>
                (let version = (case protocolVersion h of Some v \<Rightarrow> v ! 0 | None \<Rightarrow> 0);
                     protocolResponseHeader = make_protocolResponseHeader protocolType version;
                     rawClientData = drop (rawDataIndex h) chunk
                 in if isUDP h then
                      (if canHandleUDP config then
                         (HandleUDPOutbound protocolResponseHeader (addressType h) (addressRemote h)
                            (portRemote h) rawClientData, st)
                       else if portRemote h = 53 then (Return, st\<lparr>isDns := True\<rparr>)
                       else (Throw UdpRequiresVlessOutbound, st))
                    else if isDns st then (HandleDNSQuery rawClientData protocolResponseHeader, st)
                    else
                      (HandleTCPOutBound (addressType h) (addressRemote h) (portRemote h)
                         rawClientData protocolResponseHeader, st))))"

text \<open>A session: the chunks of the WebSocket, written one after the other.\<close>

fun ws_writes :: "ws_config \<Rightarrow> ws_state \<Rightarrow> bytes list \<Rightarrow> ws_action list" where
  "ws_writes config st [] = []"
| "ws_writes config st (chunk # rest) =
     (case ws_write config st chunk of (a, st') \<Rightarrow> a # ws_writes config st' rest)"

text \<open>A VLESS request for UDP to \<open>8.8.8.8\<close> port 53 that carries a DNS query of two
  bytes, and a configuration without a UDP-capable outbound.\<close>

definition dns_request :: bytes where
  "dns_request =
     [0, 0x11,0x11,0x11,0x11, 0x11,0x11, 0x41,0x11, 0x81,0x11, 0x11,0x11,0x11,0x11,0x11,0x11,
      0, 2, 0, 53, 1, 8, 8, 8, 8, 0xAB, 0xCD]"

definition dns_config :: ws_config where
  "dns_config = \<lparr>trojanPassword = js ''11111111-1111-4111-8111-111111111111'',
                  userID = js ''11111111-1111-4111-8111-111111111111'',
                  canHandleUDP = False\<rparr>"

text \<open>A valid user identifier, and a VLESS request of 24 bytes for that user whose
  addon length byte says 200, so that the command byte would be at index 218.\<close>

definition uuid1 :: jsstring where
  "uuid1 = js ''11111111-1111-4111-8111-111111111111''"

definition truncated_vless :: bytes where
  "truncated_vless =
     [0, 0x11,0x11,0x11,0x11, 0x11,0x11, 0x41,0x11, 0x81,0x11, 0x11,0x11,0x11,0x11,0x11,0x11,
      200, 1, 0, 80, 1, 1, 2]"

section \<open>Proofs: proxy rotation\<close>

lemma rot_inj_le:
  assumes "j1 \<le> j2" "j2 < n" "(s + j1) mod n = (s + j2) mod (n::nat)"
  shows "j1 = j2"
proof -
  have "n dvd (s + j2) - (s + j1)"
    using assms by (metis add_le_cancel_left mod_eq_dvd_iff_nat)
  then have "n dvd j2 - j1" by simp
  moreover have "j2 - j1 < n" using assms by simp
  ultimately have "j2 - j1 = 0" by (meson dvd_imp_le not_less zero_less_iff_neq_zero)
  then show ?thesis using assms by simp
qed

lemma rot_inj:
  "j1 < n \<Longrightarrow> j2 < n \<Longrightarrow> (s + j1) mod n = (s + j2) mod (n::nat) \<Longrightarrow> j1 = j2"
  by (metis rot_inj_le nat_le_linear)

lemma rot_distinct: "k \<le> n \<Longrightarrow> distinct (map (\<lambda>j. (s + j) mod (n::nat)) [0..<k])"
proof -
  have "inj_on (\<lambda>j. (s + j) mod n) {0..<k}" if "k \<le> n"
  proof (rule inj_onI)
    fix x y assume "x \<in> {0..<k}" "y \<in> {0..<k}" "(s + x) mod n = (s + y) mod n"
    then show "x = y" using rot_inj[of x n y s] that by simp
  qed
  then show "k \<le> n \<Longrightarrow> ?thesis" by (simp add: distinct_map)
qed

lemma tried_append: "tried (xs @ ys) = tried xs @ tried ys"
  by (induction xs rule: tried.induct) auto

lemma rotation_loop_char:
  assumes "i \<le> length ps"
  shows "(case rotation_loop ps d env s c i of
      (None, c', evs) \<Rightarrow>
        c' = c \<and> tried evs = map (\<lambda>j. (s + j) mod length ps) [i..<length ps]
        \<and> (\<forall>j\<in>{i..<length ps}. env ((s + j) mod length ps) \<noteq> Connected)
        \<and> (\<forall>e\<in>set evs. \<not> is_SetCursor e)
    | (Some res, c', evs) \<Rightarrow>
        (\<exists>k pre. i \<le> k \<and> k < length ps \<and> index res = (s + k) mod length ps
          \<and> env (index res) = Connected \<and> c' = index res
          \<and> socket res = ps ! index res
          \<and> tried evs = map (\<lambda>j. (s + j) mod length ps) [i..<Suc k]
          \<and> (\<forall>j\<in>{i..<k}. env ((s + j) mod length ps) \<noteq> Connected)
          \<and> evs = pre @ [Try (index res), WriteInitial (index res) d, SetCursor (index res)]
          \<and> (\<forall>e\<in>set pre. \<not> is_SetCursor e)))"
  using assms
proof (induction ps d env s c i rule: rotation_loop.induct)
  case (1 ps d env s c i)
  show ?case
  proof (cases "i < length ps")
    case False
    then have "rotation_loop ps d env s c i = (None, c, [])"
      by (subst rotation_loop.simps) simp
    then show ?thesis using False "1.prems" by simp
  next
    case True
    let ?ix = "(s + i) mod length ps"
    show ?thesis
    proof (cases "env ?ix = Connected")
      case c: True
      have "rotation_loop ps d env s c i =
        (Some \<lparr>socket = ps ! ?ix, index = ?ix\<rparr>, ?ix, [Try ?ix, WriteInitial ?ix d, SetCursor ?ix])"
        using True c by (subst rotation_loop.simps) (simp add: Let_def)
      then show ?thesis using True c
        apply simp
        apply (rule exI[of _ i])
        apply (simp add: upt_rec[of i "Suc i"])
        done
    next
      case nc: False
      obtain r c' evs where rec: "rotation_loop ps d env s c (Suc i) = (r, c', evs)"
        by (cases "rotation_loop ps d env s c (Suc i)") auto
      have ih: "(case rotation_loop ps d env s c (Suc i) of
      (None, c', evs) \<Rightarrow>
        c' = c \<and> tried evs = map (\<lambda>j. (s + j) mod length ps) [Suc i..<length ps]
        \<and> (\<forall>j\<in>{Suc i..<length ps}. env ((s + j) mod length ps) \<noteq> Connected)
        \<and> (\<forall>e\<in>set evs. \<not> is_SetCursor e)
    | (Some res, c', evs) \<Rightarrow>
        (\<exists>k pre. Suc i \<le> k \<and> k < length ps \<and> index res = (s + k) mod length ps
          \<and> env (index res) = Connected \<and> c' = index res
          \<and> socket res = ps ! index res
          \<and> tried evs = map (\<lambda>j. (s + j) mod length ps) [Suc i..<Suc k]
          \<and> (\<forall>j\<in>{Suc i..<k}. env ((s + j) mod length ps) \<noteq> Connected)
          \<and> evs = pre @ [Try (index res), WriteInitial (index res) d, SetCursor (index res)]
          \<and> (\<forall>e\<in>set pre. \<not> is_SetCursor e)))"
      proof (cases "env ?ix")
        case ConnectThrows
        show ?thesis by (rule "1.IH"(1)[OF True refl ConnectThrows]) (use True in simp)
      next
        case OpenFails
        show ?thesis by (rule "1.IH"(2)[OF True refl OpenFails]) (use True in simp)
      next
        case WriteFails
        show ?thesis by (rule "1.IH"(3)[OF True refl WriteFails]) (use True in simp)
      next
        case Connected
        then show ?thesis using nc by simp
      qed
      obtain pre0 where pre0: "rotation_loop ps d env s c i = (r, c', pre0 @ evs)"
          "tried pre0 = [?ix]" "\<forall>e\<in>set pre0. \<not> is_SetCursor e"
      proof (cases "env ?ix")
        case ConnectThrows
        then have "rotation_loop ps d env s c i = (r, c', [Try ?ix] @ evs)"
          using True rec by (subst rotation_loop.simps) (simp add: Let_def)
        then show ?thesis using that by (simp add: is_SetCursor_def)
      next
        case OpenFails
        then have "rotation_loop ps d env s c i = (r, c', [Try ?ix] @ evs)"
          using True rec by (subst rotation_loop.simps) (simp add: Let_def)
        then show ?thesis using that by (simp add: is_SetCursor_def)
      next
        case WriteFails
        then have "rotation_loop ps d env s c i = (r, c', [Try ?ix, WriteInitial ?ix d] @ evs)"
          using True rec by (subst rotation_loop.simps) (simp add: Let_def)
        then show ?thesis using that[of "[Try ?ix, WriteInitial ?ix d]"] by (simp add: is_SetCursor_def)
      next
        case Connected
        then show ?thesis using nc by simp
      qed
      have tr: "tried (pre0 @ evs) = ?ix # tried evs"
        using pre0(2) by (simp add: tried_append)
      show ?thesis
      proof (cases r)
        case None
        have n1: "c' = c" "tried evs = map (\<lambda>j. (s + j) mod length ps) [Suc i..<length ps]"
          "\<forall>j\<in>{Suc i..<length ps}. env ((s + j) mod length ps) \<noteq> Connected"
          "\<forall>e\<in>set evs. \<not> is_SetCursor e"
          using ih None unfolding rec by simp_all
        have a: "\<forall>j\<in>{i..<length ps}. env ((s + j) mod length ps) \<noteq> Connected"
        proof
          fix j assume "j \<in> {i..<length ps}"
          then consider "j = i" | "j \<in> {Suc i..<length ps}" by force
          then show "env ((s + j) mod length ps) \<noteq> Connected"
            using n1(3) nc by cases auto
        qed
        have u: "[i..<length ps] = i # [Suc i..<length ps]"
          by (rule upt_conv_Cons) (rule True)
        have b: "tried (pre0 @ evs) = map (\<lambda>j. (s + j) mod length ps) [i..<length ps]"
          unfolding u by (simp only: tr n1(2) list.map)
        show ?thesis unfolding pre0(1) None using n1 a b pre0(3) by auto
      next
        case (Some res)
        then obtain k pre where k: "Suc i \<le> k" "k < length ps" "index res = (s + k) mod length ps"
           "env (index res) = Connected" "c' = index res" "socket res = ps ! index res"
           "tried evs = map (\<lambda>j. (s + j) mod length ps) [Suc i..<Suc k]"
           "\<forall>j\<in>{Suc i..<k}. env ((s + j) mod length ps) \<noteq> Connected"
           "evs = pre @ [Try (index res), WriteInitial (index res) d, SetCursor (index res)]"
           "\<forall>e\<in>set pre. \<not> is_SetCursor e"
          using ih Some unfolding rec by auto
        have a: "\<forall>j\<in>{i..<k}. env ((s + j) mod length ps) \<noteq> Connected"
        proof
          fix j assume "j \<in> {i..<k}"
          then consider "j = i" | "j \<in> {Suc i..<k}" by force
          then show "env ((s + j) mod length ps) \<noteq> Connected"
            using k(8) nc by cases auto
        qed
        have u: "[i..<Suc k] = i # [Suc i..<Suc k]"
          by (rule upt_conv_Cons) (use k(1) in simp)
        have b: "tried (pre0 @ evs) = map (\<lambda>j. (s + j) mod length ps) [i..<Suc k]"
          unfolding u by (simp only: tr k(7) list.map)
        have c: "pre0 @ evs = (pre0 @ pre) @ [Try (index res), WriteInitial (index res) d, SetCursor (index res)]"
          using k(9) by simp
        have d: "\<forall>e\<in>set (pre0 @ pre). \<not> is_SetCursor e"
          using k(10) pre0(3) by auto
        have e: "i \<le> k" using k(1) by simp
        have "\<exists>k pre. i \<le> k \<and> k < length ps \<and> index res = (s + k) mod length ps
          \<and> env (index res) = Connected \<and> c' = index res
          \<and> socket res = ps ! index res
          \<and> tried (pre0 @ evs) = map (\<lambda>j. (s + j) mod length ps) [i..<Suc k]
          \<and> (\<forall>j\<in>{i..<k}. env ((s + j) mod length ps) \<noteq> Connected)
          \<and> pre0 @ evs = pre @ [Try (index res), WriteInitial (index res) d, SetCursor (index res)]
          \<and> (\<forall>e\<in>set pre. \<not> is_SetCursor e)"
          apply (rule exI[of _ k])
          apply (rule exI[of _ "pre0 @ pre"])
          apply (intro conjI)
          apply (fact e k(2-6) a b c d)+
          done
        then show ?thesis unfolding pre0(1) Some
          by (simp only: option.case prod.case)
      qed
    qed
  qed
qed

lemma rot_surj:
  assumes "j < (n::nat)"
  shows "\<exists>i<n. (s + i) mod n = j"
proof -
  let ?f = "\<lambda>i. (s + i) mod n"
  have n: "0 < n" using assms by simp
  have "inj_on ?f {0..<n}"
  proof (rule inj_onI)
    fix x y assume "x \<in> {0..<n}" "y \<in> {0..<n}" "(s + x) mod n = (s + y) mod n"
    then show "x = y" using rot_inj[of x n y s] by simp
  qed
  moreover have "?f ` {0..<n} \<subseteq> {0..<n}" using n by auto
  ultimately have "?f ` {0..<n} = {0..<n}"
    by (intro endo_inj_surj) auto
  then have "j \<in> ?f ` {0..<n}" using assms by simp
  then show ?thesis by auto
qed

text \<open>
  Claim C3. For a non-empty candidate list and any persisted cursor, one call of
  \<open>connectWithRotation\<close> tries at most \<open>length proxyAddresses\<close> candidates, the tried
  indices are a prefix of \<open>(cursor + i) mod length proxyAddresses\<close> for \<open>i = 0, 1, ...\<close>
  and no index is tried twice. A successful connect is an attempt whose socket opened in
  time and whose write of the initial data succeeded (outcome \<open>Connected\<close>). If some
  candidate connects, the call returns the socket of the first such candidate in rotation
  order, the last three events are the attempt, the write of the initial data and the
  update of the cursor to that index, and the cursor is not written before. If no
  candidate connects the call returns \<open>None\<close> (null) and the cursor is unchanged.
\<close>

theorem connectWithRotation_rotation:
  assumes ne: "proxyAddresses \<noteq> []"
    and run: "connectWithRotation proxyAddresses initialData env cursor = (r, cursor', evs)"
  shows "(\<exists>k\<le>length proxyAddresses.
            tried evs = map (\<lambda>i. (cursor + i) mod length proxyAddresses) [0..<k])
       \<and> length (tried evs) \<le> length proxyAddresses
       \<and> distinct (tried evs)
       \<and> (r = None) = (\<forall>j<length proxyAddresses. env j \<noteq> Connected)
       \<and> (case r of
            None \<Rightarrow> cursor' = cursor \<and> (\<forall>e\<in>set evs. \<not> is_SetCursor e)
          | Some res \<Rightarrow>
              index res < length proxyAddresses
            \<and> env (index res) = Connected
            \<and> socket res = proxyAddresses ! index res
            \<and> cursor' = index res
            \<and> last (tried evs) = index res
            \<and> (\<forall>j\<in>set (butlast (tried evs)). env j \<noteq> Connected)
            \<and> (\<exists>pre. evs = pre @ [Try (index res), WriteInitial (index res) initialData,
                                      SetCursor (index res)]
                    \<and> (\<forall>e\<in>set pre. \<not> is_SetCursor e)))"
proof -
  let ?n = "length proxyAddresses"
  let ?f = "\<lambda>i. (cursor + i) mod ?n"
  have n: "0 < ?n" using ne by simp
  have ch: "case (r, cursor', evs) of
      (None, c', evs) \<Rightarrow>
        c' = cursor \<and> tried evs = map ?f [0..<?n]
        \<and> (\<forall>j\<in>{0..<?n}. env (?f j) \<noteq> Connected)
        \<and> (\<forall>e\<in>set evs. \<not> is_SetCursor e)
    | (Some res, c', evs) \<Rightarrow>
        (\<exists>k pre. 0 \<le> k \<and> k < ?n \<and> index res = ?f k
          \<and> env (index res) = Connected \<and> c' = index res
          \<and> socket res = proxyAddresses ! index res
          \<and> tried evs = map ?f [0..<Suc k]
          \<and> (\<forall>j\<in>{0..<k}. env (?f j) \<noteq> Connected)
          \<and> evs = pre @ [Try (index res), WriteInitial (index res) initialData, SetCursor (index res)]
          \<and> (\<forall>e\<in>set pre. \<not> is_SetCursor e))"
    using rotation_loop_char[where i=0 and ps=proxyAddresses and d=initialData and env=env and s=cursor and c=cursor] run
    unfolding connectWithRotation_def by simp
  show ?thesis
  proof (cases r)
    case None
    have a: "cursor' = cursor" "tried evs = map ?f [0..<?n]"
      "\<forall>j\<in>{0..<?n}. env (?f j) \<noteq> Connected" "\<forall>e\<in>set evs. \<not> is_SetCursor e"
      using ch None by simp_all
    have all: "\<forall>j<?n. env j \<noteq> Connected"
    proof (intro allI impI)
      fix j assume "j < ?n"
      then obtain i where "i < ?n" "?f i = j" using rot_surj[of j ?n cursor] by blast
      then show "env j \<noteq> Connected" using a(3) by auto
    qed
    have d: "distinct (tried evs)" unfolding a(2) by (rule rot_distinct) simp
    have e: "\<exists>k\<le>?n. tried evs = map ?f [0..<k]" using a(2) by blast
    have l: "length (tried evs) \<le> ?n" using a(2) by simp
    show ?thesis using None a(1) a(4) all d e l by simp
  next
    case (Some res)
    then obtain k pre where k: "k < ?n" "index res = ?f k"
        "env (index res) = Connected" "cursor' = index res"
        "socket res = proxyAddresses ! index res"
        "tried evs = map ?f [0..<Suc k]"
        "\<forall>j\<in>{0..<k}. env (?f j) \<noteq> Connected"
        "evs = pre @ [Try (index res), WriteInitial (index res) initialData, SetCursor (index res)]"
        "\<forall>e\<in>set pre. \<not> is_SetCursor e"
      using ch by auto
    have i: "index res < ?n" using k(2) n by simp
    have d: "distinct (tried evs)" unfolding k(6) by (rule rot_distinct) (use k(1) in simp)
    have e: "\<exists>k\<le>?n. tried evs = map ?f [0..<k]"
      using k(6) k(1) by (intro exI[of _ "Suc k"]) simp
    have l: "length (tried evs) \<le> ?n" using k(6) k(1) by simp
    have la: "last (tried evs) = index res" using k(6) k(2) by simp
    have bl: "butlast (tried evs) = map ?f [0..<k]" using k(6) by simp
    have b: "\<forall>j\<in>set (butlast (tried evs)). env j \<noteq> Connected"
      unfolding bl using k(7) by auto
    have nn: "\<not> (\<forall>j<?n. env j \<noteq> Connected)" using i k(3) by blast
    have p: "\<exists>pre. evs = pre @ [Try (index res), WriteInitial (index res) initialData,
                                      SetCursor (index res)]
                    \<and> (\<forall>e\<in>set pre. \<not> is_SetCursor e)"
      using k(8) k(9) by blast
    show ?thesis unfolding Some using i k(3) k(4) k(5) d e l la b nn p
      by (simp only: option.case option.distinct simp_thms)
  qed
qed

lemma rotation_example_run:
  "connectWithRotation [(js ''a'', 1), (js ''b'', 2), (js ''c'', 3)] [1, 2] env1 1
   = (Some \<lparr>socket = (js ''a'', 1), index = 0\<rparr>, 0,
      [Try 1, WriteInitial 1 [1, 2], Try 2, Try 0, WriteInitial 0 [1, 2], SetCursor 0])"
  by (simp add: connectWithRotation_def rotation_loop.simps env1_def)

theorem connectWithRotation_rotation_witness:
  "[(js ''a'', 1), (js ''b'', 2), (js ''c'', 3)] \<noteq> []
   \<and> connectWithRotation [(js ''a'', 1), (js ''b'', 2), (js ''c'', 3)] [1, 2] env1 1
       = (Some \<lparr>socket = (js ''a'', 1), index = 0\<rparr>, 0,
          [Try 1, WriteInitial 1 [1, 2], Try 2, Try 0, WriteInitial 0 [1, 2], SetCursor 0])
   \<and> distinct (tried [Try 1, WriteInitial 1 [1, 2], Try 2, Try 0, WriteInitial 0 [1, 2], SetCursor 0])
   \<and> length (tried [Try 1, WriteInitial 1 [1, 2], Try 2, Try 0, WriteInitial 0 [1, 2], SetCursor 0]) \<le> 3
   \<and> env1 0 = Connected"
  using connectWithRotation_rotation[OF _ rotation_example_run] rotation_example_run
  by (simp add: env1_def)

section \<open>Proofs: UDP datagram framing\<close>

lemma udp_write_loop_end: "length b \<le> off \<Longrightarrow> udp_write_loop b off = ([], [])"
  by (subst udp_write_loop.simps) simp

lemma udp_write_loop_short:
  "off < length b \<Longrightarrow> length b \<le> off + 1 \<Longrightarrow> udp_write_loop b off = ([], drop off b)"
  by (subst udp_write_loop.simps) simp

lemma udp_write_loop_incomplete:
  "off + 1 < length b \<Longrightarrow> length b < off + 2 + (unat (b ! off) * 256 + unat (b ! (off + 1)))
   \<Longrightarrow> udp_write_loop b off = ([], drop off b)"
  by (subst udp_write_loop.simps) (simp add: Let_def)

lemma udp_write_loop_complete:
  "off + 1 < length b \<Longrightarrow> n = unat (b ! off) * 256 + unat (b ! (off + 1))
   \<Longrightarrow> off + 2 + n \<le> length b
   \<Longrightarrow> udp_write_loop b off =
        (take n (drop (off + 2) b) # fst (udp_write_loop b (off + 2 + n)),
         snd (udp_write_loop b (off + 2 + n)))"
  by (subst udp_write_loop.simps) (simp add: Let_def case_prod_beta)

text \<open>The loop at offset \<open>off\<close> is the loop at offset 0 on the rest of the array.\<close>

lemma udp_write_loop_drop:
  "off \<le> length b \<Longrightarrow> udp_write_loop b off = udp_write_loop (drop off b) 0"
proof (induction "length b - off" arbitrary: b off rule: less_induct)
  case less
  let ?n = "unat (b ! off) * 256 + unat (b ! (off + 1))"
  let ?c = "drop off b"
  show ?case
  proof (cases "off < length b")
    case False
    then show ?thesis using less.prems by (simp add: udp_write_loop_end)
  next
    case lt: True
    show ?thesis
    proof (cases "off + 1 \<ge> length b")
      case True
      then show ?thesis using lt
        by (simp add: udp_write_loop_short)
    next
      case h: False
      have nth: "?c ! 0 = b ! off" "?c ! (0 + 1) = b ! (off + 1)"
        using h lt by simp_all
      have n: "?n = unat (?c ! 0) * 256 + unat (?c ! (0 + 1))"
        by (simp only: nth)
      have lc: "0 + 1 < length ?c" using h by simp
      show ?thesis
      proof (cases "off + 2 + ?n > length b")
        case True
        have "udp_write_loop b off = ([], drop off b)"
          by (rule udp_write_loop_incomplete) (use h True in simp_all)
        moreover have "udp_write_loop ?c 0 = ([], drop 0 ?c)"
          by (rule udp_write_loop_incomplete[OF lc]) (use True lt in \<open>simp only: nth, simp\<close>)
        ultimately show ?thesis by simp
      next
        case c: False
        have ih: "udp_write_loop b (off + 2 + ?n) = udp_write_loop (drop (off + 2 + ?n) b) 0"
          using less.hyps[of b "off + 2 + ?n"] c lt by simp
        have d: "drop (0 + 2 + ?n) ?c = drop (off + 2 + ?n) b"
          by (simp add: add.commute add.left_commute)
        have ih2: "udp_write_loop ?c (0 + 2 + ?n) = udp_write_loop (drop (off + 2 + ?n) b) 0"
          using less.hyps[of ?c "0 + 2 + ?n"] c lt unfolding d by simp
        have t: "take ?n (drop (0 + 2) ?c) = take ?n (drop (off + 2) b)"
          by (simp add: add.commute)
        have l: "udp_write_loop b off =
            (take ?n (drop (off + 2) b) # fst (udp_write_loop b (off + 2 + ?n)),
             snd (udp_write_loop b (off + 2 + ?n)))"
          by (rule udp_write_loop_complete) (use h c in simp_all)
        have r: "udp_write_loop ?c 0 =
            (take ?n (drop (0 + 2) ?c) # fst (udp_write_loop ?c (0 + 2 + ?n)),
             snd (udp_write_loop ?c (0 + 2 + ?n)))"
          by (rule udp_write_loop_complete[OF lc n]) (use c lt in simp)
        show ?thesis unfolding l r ih ih2 t by (rule refl)
      qed
    qed
  qed
qed

lemma deframe_short: "length b < 2 \<Longrightarrow> deframe b = ([], b)"
proof (cases "b = []")
  case True
  then show ?thesis by (simp add: deframe_def udp_write_loop_end)
next
  case False
  assume "length b < 2"
  then show ?thesis using False udp_write_loop_short[of 0 b] by (simp add: deframe_def)
qed

lemma deframe_incomplete:
  "2 \<le> length b \<Longrightarrow> length b < 2 + frame_len b \<Longrightarrow> deframe b = ([], b)"
  using udp_write_loop_incomplete[of 0 b] by (simp add: deframe_def frame_len_def)

lemma deframe_complete:
  assumes "2 \<le> length b" "2 + frame_len b \<le> length b"
  shows "deframe b =
    (take (frame_len b) (drop 2 b) # fst (deframe (drop (2 + frame_len b) b)),
     snd (deframe (drop (2 + frame_len b) b)))"
proof -
  have "udp_write_loop b (0 + 2 + frame_len b) = udp_write_loop (drop (0 + 2 + frame_len b) b) 0"
    by (rule udp_write_loop_drop) (use assms in simp)
  moreover have "udp_write_loop b 0 =
        (take (frame_len b) (drop (0 + 2) b) # fst (udp_write_loop b (0 + 2 + frame_len b)),
         snd (udp_write_loop b (0 + 2 + frame_len b)))"
    by (rule udp_write_loop_complete) (use assms in \<open>simp_all add: frame_len_def\<close>)
  ultimately show ?thesis by (simp add: deframe_def numeral_2_eq_2)
qed

lemma deframe_append:
  "deframe (xs @ ys) =
     (fst (deframe xs) @ fst (deframe (snd (deframe xs) @ ys)),
      snd (deframe (snd (deframe xs) @ ys)))"
proof (induction "length xs" arbitrary: xs rule: less_induct)
  case less
  show ?case
  proof (cases "length xs < 2")
    case True
    then show ?thesis by (simp add: deframe_short)
  next
    case l2: False
    have "0 < length xs" "1 < length xs" using l2 by (cases xs, simp_all)+
    then have fl: "frame_len (xs @ ys) = frame_len xs"
      by (simp add: frame_len_def nth_append)
    show ?thesis
    proof (cases "length xs < 2 + frame_len xs")
      case True
      then show ?thesis using l2 by (simp add: deframe_incomplete)
    next
      case c: False
      let ?n = "frame_len xs"
      have 1: "deframe xs = (take ?n (drop 2 xs) # fst (deframe (drop (2 + ?n) xs)),
                 snd (deframe (drop (2 + ?n) xs)))"
        by (rule deframe_complete) (use l2 c in simp_all)
      have 2: "deframe (xs @ ys) = (take ?n (drop 2 (xs @ ys)) # fst (deframe (drop (2 + ?n) (xs @ ys))),
                 snd (deframe (drop (2 + ?n) (xs @ ys))))"
        using deframe_complete[of "xs @ ys"] l2 c unfolding fl by simp
      have 3: "take ?n (drop 2 (xs @ ys)) = take ?n (drop 2 xs)"
        using c by simp
      have 4: "drop (2 + ?n) (xs @ ys) = drop (2 + ?n) xs @ ys"
        using c by simp
      have ih: "deframe (drop (2 + ?n) xs @ ys) =
         (fst (deframe (drop (2 + ?n) xs)) @ fst (deframe (snd (deframe (drop (2 + ?n) xs)) @ ys)),
          snd (deframe (snd (deframe (drop (2 + ?n) xs)) @ ys)))"
        by (rule less.hyps) (use l2 in simp)
      show ?thesis unfolding 2 3 4 ih unfolding 1 by simp
    qed
  qed
qed

lemma deframe_leftover: "deframe (snd (deframe xs)) = ([], snd (deframe xs))"
proof (induction "length xs" arbitrary: xs rule: less_induct)
  case less
  show ?case
  proof (cases "length xs < 2")
    case True
    then show ?thesis by (simp add: deframe_short)
  next
    case l2: False
    show ?thesis
    proof (cases "length xs < 2 + frame_len xs")
      case True
      then show ?thesis using l2 by (simp add: deframe_incomplete)
    next
      case c: False
      let ?n = "frame_len xs"
      have 1: "deframe xs = (take ?n (drop 2 xs) # fst (deframe (drop (2 + ?n) xs)),
                 snd (deframe (drop (2 + ?n) xs)))"
        by (rule deframe_complete) (use l2 c in simp_all)
      have ih: "deframe (snd (deframe (drop (2 + ?n) xs))) = ([], snd (deframe (drop (2 + ?n) xs)))"
        by (rule less.hyps) (use l2 in simp)
      show ?thesis unfolding 1 using ih by simp
    qed
  qed
qed

lemma udp_write_deframe: "udp_write leftoverData chunk = deframe (leftoverData @ chunk)"
  by (simp add: udp_write_def deframe_def joinUint8Array_def)

lemma udp_writes_deframe:
  "deframe leftoverData = ([], leftoverData) \<Longrightarrow>
   udp_writes leftoverData chunks = deframe (leftoverData @ concat chunks)"
proof (induction chunks arbitrary: leftoverData)
  case Nil
  then show ?case by simp
next
  case (Cons chunk chunks)
  let ?l = "snd (deframe (leftoverData @ chunk))"
  have "udp_writes ?l chunks = deframe (?l @ concat chunks)"
    by (rule Cons.IH) (rule deframe_leftover)
  then show ?case
    using deframe_append[of "leftoverData @ chunk" "concat chunks"]
    by (simp add: udp_write_deframe case_prod_beta)
qed

lemma deframe_frame:
  assumes "length d < 65536"
  shows "deframe (udp_frame (length d) d @ rest) = (d # fst (deframe rest), snd (deframe rest))"
proof -
  let ?b = "udp_frame (length d) d @ rest"
  have hi: "unat (of_nat ((length d div 256) mod 256) :: byte) = length d div 256"
    using assms by (simp add: unat_of_nat)
  have lo: "unat (of_nat (length d mod 256) :: byte) = length d mod 256"
    by (simp add: unat_of_nat)
  have fl: "frame_len ?b = length d"
    by (simp add: frame_len_def udp_frame_def joinUint8Array_def hi lo)
  have "deframe ?b = (take (frame_len ?b) (drop 2 ?b) # fst (deframe (drop (2 + frame_len ?b) ?b)),
     snd (deframe (drop (2 + frame_len ?b) ?b)))"
    by (rule deframe_complete) (simp_all add: fl, simp_all add: udp_frame_def joinUint8Array_def)
  then show ?thesis
    unfolding fl by (simp add: udp_frame_def joinUint8Array_def)
qed

lemma deframe_frames:
  "\<forall>d\<in>set ds. length d < 65536 \<Longrightarrow>
   deframe (concat (map (\<lambda>d. udp_frame (length d) d) ds)) = (ds, [])"
  by (induction ds) (simp_all add: deframe_short deframe_frame)

text \<open>
  Claim C6. Let every datagram be shorter than 65536 bytes and let each be framed as
  \<open>makeReadableUDPStream\<close> does, with \<open>info.size\<close> the length of the message. However
  the concatenated frames are cut into chunks, writing the chunks in order to the stream of
  \<open>makeWritableUDPStream\<close> sends exactly the original datagrams, in order, and leaves
  \<open>leftoverData\<close> empty.
\<close>

theorem udp_framing_roundtrip:
  assumes "\<forall>d\<in>set datagrams. length d < 65536"
    and "concat chunks = concat (map (\<lambda>d. udp_frame (length d) d) datagrams)"
  shows "udp_writes [] chunks = (datagrams, [])"
  using udp_writes_deframe[of "[]" chunks] deframe_frames[OF assms(1)] assms(2)
  by (simp add: deframe_short)

theorem udp_framing_roundtrip_witness:
  "concat [[0], [], [3, 1], [2, 3, 0], [0, 0, 1, 9], []]
     = concat (map (\<lambda>d. udp_frame (length d) d) [[1, 2, 3], [], [9]])
   \<and> udp_writes [] [[0], [], [3, 1], [2, 3, 0], [0, 0, 1, 9], []] = ([[1, 2, 3], [], [9]], [])"
  using udp_framing_roundtrip[of "[[1, 2, 3], [], [9]]" "[[0], [], [3, 1], [2, 3, 0], [0, 0, 1, 9], []]"]
  by (simp add: udp_frame_def joinUint8Array_def)

section \<open>Proofs: stream relay and retry\<close>

lemma sends_append: "sends (xs @ ys) = sends xs @ sends ys"
  by (induction xs rule: sends.induct) auto

lemma relay_write_no_header:
  "sends (fst (relay_write cs None h)) = map fst (takeWhile snd cs)"
  by (induction cs arbitrary: h) (auto simp: case_prod_beta)

lemma relay_write_sends:
  "sends (fst (relay_write cs hdr h)) =
     (case map fst (takeWhile snd cs) of
        [] \<Rightarrow> []
      | c # rest \<Rightarrow> (case hdr of Some header \<Rightarrow> header @ c | None \<Rightarrow> c) # rest)"
proof (cases cs)
  case Nil
  then show ?thesis by simp
next
  case (Cons a list)
  obtain c w where a: "a = (c, w)" by (cases a)
  show ?thesis
    using relay_write_no_header[of list True]
    by (cases hdr) (auto simp: Cons a case_prod_beta)
qed

lemma relay_write_flag:
  "fst (snd (relay_write cs hdr h)) = (h \<or> takeWhile snd cs \<noteq> [])"
proof (induction cs arbitrary: hdr h)
  case Nil
  then show ?case by simp
next
  case (Cons a cs)
  obtain c w where a: "a = (c, w)" by (cases a)
  show ?case using Cons.IH[of None True]
    by (cases hdr) (auto simp: a case_prod_beta)
qed

lemma remoteSocketToWS_sends:
  "sends (fst (remoteSocketToWS r hdr g)) =
     (case forwarded r of
        [] \<Rightarrow> []
      | c # rest \<Rightarrow> (case hdr of Some header \<Rightarrow> header @ c | None \<Rightarrow> c) # rest)"
proof -
  obtain evs h t where rw: "relay_write (stream_chunks r) hdr False = (evs, h, t)"
    by (cases "relay_write (stream_chunks r) hdr False") auto
  have "sends (fst (remoteSocketToWS r hdr g)) = sends evs"
    by (simp add: remoteSocketToWS_def rw Let_def sends_append)
  moreover have "sends evs = sends (fst (relay_write (stream_chunks r) hdr False))"
    by (simp add: rw)
  ultimately show ?thesis
    by (simp only: relay_write_sends forwarded_def)
qed

text \<open>
  Claim C5. Of the chunks of an outbound stream that the relay forwards to the WebSocket,
  the first is sent with the protocol response header in front, which is the two bytes
  \<open>[version, 0]\<close> in a VLESS session and nothing in a Trojan session, and every later
  chunk is sent as it is.
\<close>

theorem response_header_first_chunk_only:
  "sends (fst (remoteSocketToWS remoteSocket (make_protocolResponseHeader Vless version) retry_given))
     = (case forwarded remoteSocket of [] \<Rightarrow> [] | c # rest \<Rightarrow> ([version, 0] @ c) # rest)
   \<and> sends (fst (remoteSocketToWS remoteSocket (make_protocolResponseHeader Trojan version) retry_given))
     = forwarded remoteSocket"
  by (simp add: remoteSocketToWS_sends make_protocolResponseHeader_def split: list.split)

theorem response_header_first_chunk_only_witness:
  "sends (fst (remoteSocketToWS \<lparr>stream_chunks = [([1], True), ([2, 3], True), ([4], False), ([5], True)],
                                 stream_ending = StreamClosed\<rparr> (make_protocolResponseHeader Vless 0) True))
     = [[0, 0, 1], [2, 3]]
   \<and> sends (fst (remoteSocketToWS \<lparr>stream_chunks = [([1], True), ([2, 3], True), ([4], False), ([5], True)],
                                 stream_ending = StreamClosed\<rparr> (make_protocolResponseHeader Trojan 0) True))
     = [[1], [2, 3]]"
  using response_header_first_chunk_only[of "\<lparr>stream_chunks = [([1], True), ([2, 3], True), ([4], False), ([5], True)],
                                 stream_ending = StreamClosed\<rparr>" 0 True]
  by (simp add: forwarded_def)

text \<open>The relay calls \<open>retry\<close> exactly when a retry function was given and no chunk was
  sent to the WebSocket.\<close>

lemma remoteSocketToWS_retry_iff:
  "snd (remoteSocketToWS r hdr g) = (g \<and> forwarded r = [])"
proof -
  obtain evs h t where rw: "relay_write (stream_chunks r) hdr False = (evs, h, t)"
    by (cases "relay_write (stream_chunks r) hdr False") auto
  have "h = (takeWhile snd (stream_chunks r) \<noteq> [])"
    using relay_write_flag[of "stream_chunks r" hdr False] by (simp add: rw)
  then show ?thesis
    by (auto simp: remoteSocketToWS_def rw Let_def forwarded_def)
qed

lemma retries_append: "retries (xs @ ys) = retries xs + retries ys"
  by (simp add: retries_def)

lemma relay_write_no_retry: "retries (fst (relay_write cs hdr h)) = 0"
  by (induction cs arbitrary: hdr h) (auto simp: retries_def case_prod_beta split: option.splits)

lemma remoteSocketToWS_retries:
  "retries (fst (remoteSocketToWS r hdr g)) = (if snd (remoteSocketToWS r hdr g) then 1 else 0)"
proof -
  obtain evs h t where rw: "relay_write (stream_chunks r) hdr False = (evs, h, t)"
    by (cases "relay_write (stream_chunks r) hdr False") auto
  have "retries evs = 0" using relay_write_no_retry[of "stream_chunks r" hdr False] by (simp add: rw)
  then show ?thesis
    by (auto simp: remoteSocketToWS_def rw Let_def retries_def)
qed

lemma retries_Nil: "retries [] = 0"
  by (simp add: retries_def)

lemma retries_Cons_Retry: "retries (Retry # evs) = Suc (retries evs)"
  by (simp add: retries_def)

lemma retry_no_retries: "retries (fst (retry config env d hdr c)) = 0"
  by (simp add: retry_def Let_def case_prod_beta remoteSocketToWS_retries
      remoteSocketToWS_retry_iff retries_Nil split: conn_result.split)

lemma handleTCPOutBound_retry_at_most_once:
  "retries (fst (handleTCPOutBound config env d hdr c)) \<le> 1"
proof -
  have r0: "retries (fst (retry config env d hdr c)) = 0" by (rule retry_no_retries)
  show ?thesis
    by (simp add: handleTCPOutBound_def Let_def case_prod_beta remoteSocketToWS_retries
        remoteSocketToWS_retry_iff retries_append retries_Nil retries_Cons_Retry r0
        split: conn_result.split)
qed

text \<open>
  Claim C4. The relay should call \<open>retry\<close> only when the outbound side ended without
  delivering a byte. Here the outbound side delivers a one-byte chunk while the WebSocket
  is not open: \<open>write\<close> throws before it sets \<open>hasIncomingData\<close>, and \<open>retry\<close> is
  called. (That \<open>retry\<close> is called at most once in a dispatch is
  \<open>handleTCPOutBound_retry_at_most_once\<close>.)
\<close>

theorem retry_called_after_data:
  "remoteSocketToWS \<lparr>stream_chunks = [([1], False)], stream_ending = StreamClosed\<rparr> (Some [0, 0]) True
     = ([SafeCloseWebSocket, Retry], True)"
  by (simp add: remoteSocketToWS_def)

section \<open>Proofs: header parsers and the handler\<close>

text \<open>
  Claim C8. A header parser should answer a truncated buffer with an error object. The
  VLESS parser reads the command byte at \<open>18 + optLength\<close> without a check of the length:
  on the 24 bytes of \<open>truncated_vless\<close> the read at index 218 throws a \<open>RangeError\<close>.
\<close>

theorem vless_parser_throws_on_truncated_buffer:
  "processProtocolHeader truncated_vless uuid1 = Inl RangeError"
  by code_simp

text \<open>The bytes of the user field, when they do not spell a UUID of version 1 to 5, make
  \<open>stringify\<close> throw a \<open>TypeError\<close>; and a buffer cut inside an IPv4 address is parsed
  without an error, with a shorter address.\<close>

lemma vless_parser_throws_on_invalid_uuid_bytes:
  "processProtocolHeader (replicate 24 0) uuid1 = Inl TypeError"
  by code_simp

lemma vless_parser_accepts_truncated_ipv4:
  "processProtocolHeader (take 17 truncated_vless @ [0, 1, 0, 80, 1, 1, 2]) uuid1
     = Inr (Parsed \<lparr>addressRemote = js ''1.2'', addressType = 1, portRemote = 80,
                     rawDataIndex = 26, protocolVersion = Some [0], isUDP = False\<rparr>)"
  by code_simp

text \<open>
  Claim C7. In a UDP session to port 53 without a UDP-capable outbound the payload after
  the header should go to the resolver and the answer should come back behind the VLESS
  response header. The handler sets \<open>isDns\<close> and returns: the payload \<open>[0xAB, 0xCD]\<close> of the
  first chunk is never passed to \<open>handleDNSQuery\<close>, and the next chunk is passed with
  \<open>null\<close> as response header.
\<close>

theorem dns_first_payload_dropped:
  "ws_writes dns_config \<lparr>isDns = False, remoteSocket_set = False\<rparr> [dns_request, [1, 2, 3]]
     = [Return, HandleDNSQuery [1, 2, 3] None]"
  by code_simp

end
